theory Spec2Isabelle
  imports Complex_Main "HOL-Library.Multiset" "HOL-Library.Char_ord" "HOL-Library.List_Lexorder"
begin

section \<open>Data model of \<open>src/risk_rules.py\<close>\<close>

text \<open>
  The module works on pandas DataFrames. A DataFrame is modelled as its list of column
  labels together with its rows in order. A row of the transaction table is a record with
  one field per column that \<open>generate_synthetic_data.py\<close> writes; the label list says which
  of these columns the frame really has, so that \<open>df["c"]\<close> on a missing column is a
  \<open>KeyError\<close> of the model, as it is in pandas. Columns the module never reads carry no
  data in the model, only their label.

  What the types fix:
  \<^item> the labels of a frame are pairwise different, as \<open>pd.read_csv\<close> delivers them; a
    frame with a repeated label is not represented;
  \<^item> the cells pandas holds as NaN in the generated data (no return code, no days to
    return, no fraud pattern) are \<open>None\<close>; the other columns have a value in every row;
  \<^item> \<open>amount_usd\<close> is a rational number: the column holds finite floats, and the one
    operation on it, the comparison with the integer 500, is exact on floats;
  \<^item> \<open>days_to_return\<close> and \<open>account_age_days\<close> are integers, \<open>risk_score\<close> is a Python
    \<open>int\<close>.
  The exceptions are those of pandas 2; each carries its message.
\<close>

datatype error = KeyError string | ValueError string | MergeError string

record transaction =
  transaction_id :: string
  user_id :: string
  timestamp_utc :: string
  direction :: string
  amount_usd :: rat
  ach_type :: string
  funding_speed :: string
  device_id :: string
  ip_country :: string
  return_code :: "string option"
  returned :: bool
  days_to_return :: "int option"
  fraud_pattern_type :: "string option"
  is_fraud_pattern :: bool
  account_age_days :: int

text \<open>A rule hit: the transaction's row with the column \<open>rule_name\<close> added by \<open>assign\<close>.\<close>

record alert = transaction +
  rule_name :: string

text \<open>A scored row: the transaction's row with the column \<open>risk_score\<close> added.\<close>

record scored = transaction +
  risk_score :: int

record 'r dataframe =
  columns :: "string list"
  rows :: "'r list"

type_synonym rule = "transaction dataframe \<Rightarrow> error + alert dataframe"

section \<open>The pandas operations the module uses\<close>

text \<open>Sequencing of steps that may raise: the first exception ends the computation.\<close>

definition ebind :: "error + 'a \<Rightarrow> ('a \<Rightarrow> error + 'b) \<Rightarrow> error + 'b" where
  "ebind m f = (case m of Inl e \<Rightarrow> Inl e | Inr x \<Rightarrow> f x)"

text \<open>\<open>df[c]\<close>: the column as a series, or \<open>KeyError(c)\<close>.\<close>

definition getitem :: "'r dataframe \<Rightarrow> string \<Rightarrow> ('r \<Rightarrow> 'a) \<Rightarrow> error + 'a list" where
  "getitem df c field =
     (if c \<in> set (columns df) then Inr (map field (rows df)) else Inl (KeyError c))"

text \<open>\<open>a & b\<close> on two boolean series of the same frame.\<close>

definition series_and :: "bool list \<Rightarrow> bool list \<Rightarrow> bool list" where
  "series_and a b = map2 (\<and>) a b"

text \<open>\<open>df[mask]\<close>: the rows whose mask entry is true, in order; the columns are kept.\<close>

definition boolean_index :: "'r dataframe \<Rightarrow> bool list \<Rightarrow> 'r dataframe" where
  "boolean_index df msk = df\<lparr>rows := map fst (filter snd (zip (rows df) msk))\<rparr>"

text \<open>\<open>series <= 5\<close> and \<open>series.isin(values)\<close> are false on NaN.\<close>

definition le_scalar :: "int option list \<Rightarrow> int \<Rightarrow> bool list" where
  "le_scalar s k = map (\<lambda>v. case v of None \<Rightarrow> False | Some d \<Rightarrow> d \<le> k) s"

definition isin_opt :: "string option list \<Rightarrow> string list \<Rightarrow> bool list" where
  "isin_opt s vals = map (\<lambda>v. case v of None \<Rightarrow> False | Some c \<Rightarrow> c \<in> set vals) s"

definition notna :: "'a option list \<Rightarrow> bool list" where
  "notna s = map (\<lambda>v. v \<noteq> None) s"

definition flag :: "string \<Rightarrow> transaction \<Rightarrow> alert" where
  "flag name t = transaction.extend t (alert.fields name)"

text \<open>\<open>df.assign(rule_name=name)\<close>: sets the column on every row; the label is appended
  unless the frame already has it.\<close>

definition assign_rule_name :: "transaction dataframe \<Rightarrow> string \<Rightarrow> alert dataframe" where
  "assign_rule_name df name =
     \<lparr>columns = (if ''rule_name'' \<in> set (columns df) then columns df
                 else columns df @ [''rule_name'']),
      rows = map (flag name) (rows df)\<rparr>"

section \<open>The three rules\<close>

definition rule_high_instant_ach_for_new_users :: rule where
  "rule_high_instant_ach_for_new_users df =
     ebind (getitem df ''funding_speed'' funding_speed) (\<lambda>speed.
     ebind (getitem df ''account_age_days'' account_age_days) (\<lambda>age.
     ebind (getitem df ''amount_usd'' amount_usd) (\<lambda>amount.
       let msk = series_and
                    (series_and (map (\<lambda>v. v = ''instant'') speed) (map (\<lambda>v. v < 30) age))
                    (map (\<lambda>v. v > 500) amount)
       in Inr (assign_rule_name (boolean_index df msk) ''high_instant_ach_for_new_users''))))"

definition rule_rapid_high_risk_returns :: rule where
  "rule_rapid_high_risk_returns df =
     ebind (getitem df ''returned'' returned) (\<lambda>ret.
     ebind (getitem df ''days_to_return'' days_to_return) (\<lambda>days.
     ebind (getitem df ''days_to_return'' days_to_return) (\<lambda>days'.
     ebind (getitem df ''return_code'' return_code) (\<lambda>code.
       let msk = series_and
                    (series_and
                       (series_and (map (\<lambda>v. v = True) ret) (notna days))
                       (le_scalar days' 5))
                    (isin_opt code [''R01'', ''R10'', ''R29''])
       in Inr (assign_rule_name (boolean_index df msk) ''rapid_high_risk_returns'')))))"

text \<open>
  \<open>df.groupby("device_id")["user_id"].nunique().reset_index()\<close>: one row per device, the
  devices sorted, with the number of distinct users seen on it. A missing group key is
  \<open>KeyError("device_id")\<close>; a missing selected column is reported by the groupby object as
  \<open>KeyError("Column not found: user_id")\<close>.
\<close>

definition device_user_counts :: "transaction dataframe \<Rightarrow> error + (string \<times> int) list" where
  "device_user_counts df =
     (if ''device_id'' \<notin> set (columns df) then Inl (KeyError ''device_id'')
      else if ''user_id'' \<notin> set (columns df) then Inl (KeyError ''Column not found: user_id'')
      else Inr (map (\<lambda>d. (d, int (length (remdups
                  (map user_id (filter (\<lambda>t. device_id t = d) (rows df)))))))
                (sort (remdups (map device_id (rows df))))))"

definition rule_device_shared_by_many_users :: "transaction dataframe \<Rightarrow> int \<Rightarrow> error + alert dataframe" where
  "rule_device_shared_by_many_users df min_users =
     ebind (device_user_counts df) (\<lambda>counts.
       let suspicious_devices = map fst (filter (\<lambda>r. snd r \<ge> min_users) counts) in
       ebind (getitem df ''device_id'' device_id) (\<lambda>dev.
         let msk = map (\<lambda>v. v \<in> set suspicious_devices) dev
         in Inr (assign_rule_name (boolean_index df msk) ''device_shared_by_many_users'')))"

section \<open>Scoring\<close>

text \<open>The registry of \<open>score_transactions\<close>; the third rule runs with its default
  \<open>min_users=5\<close>.\<close>

definition rules :: "rule list" where
  "rules = [rule_high_instant_ach_for_new_users,
            rule_rapid_high_risk_returns,
            (\<lambda>df. rule_device_shared_by_many_users df 5)]"

text \<open>The loop \<open>for rule in rules: alerts_list.append(rule(df))\<close>.\<close>

fun apply_rules :: "rule list \<Rightarrow> transaction dataframe \<Rightarrow> alert dataframe list
                    \<Rightarrow> error + alert dataframe list" where
  "apply_rules [] df alerts_list = Inr alerts_list"
| "apply_rules (rule # rs) df alerts_list =
     ebind (rule df) (\<lambda>rule_alerts. apply_rules rs df (alerts_list @ [rule_alerts]))"

text \<open>Labels in order of first appearance.\<close>

definition union_labels :: "string list \<Rightarrow> string list" where
  "union_labels cs = rev (remdups (rev cs))"

text \<open>\<open>pd.concat(frames, ignore_index=True)\<close>: the rows of the frames one after the other;
  an empty list of frames is a \<open>ValueError\<close>.\<close>

definition pd_concat :: "'r dataframe list \<Rightarrow> error + 'r dataframe" where
  "pd_concat frames =
     (if frames = [] then Inl (ValueError ''No objects to concatenate'')
      else Inr \<lparr>columns = union_labels (concat (map columns frames)),
                rows = concat (map rows frames)\<rparr>)"

text \<open>
  \<open>alerts_df.groupby("transaction_id")["rule_name"].count().reset_index()\<close> renamed: one
  row per transaction id that has a hit, the ids sorted, with the number of hit rows.
\<close>

definition hit_counts :: "alert dataframe \<Rightarrow> error + (string \<times> int) list" where
  "hit_counts alerts_df =
     (if ''transaction_id'' \<notin> set (columns alerts_df) then Inl (KeyError ''transaction_id'')
      else if ''rule_name'' \<notin> set (columns alerts_df)
        then Inl (KeyError ''Column not found: rule_name'')
      else Inr (map (\<lambda>k. (k, int (length (filter (\<lambda>a. transaction_id a = k) (rows alerts_df)))))
                (sort (remdups (map transaction_id (rows alerts_df))))))"

text \<open>
  \<open>df.merge(scores, on="transaction_id", how="left")\<close>: every row of \<open>df\<close>, in order, once
  per row of \<open>scores\<close> with its id, or once with NaN when there is none. A column of \<open>df\<close>
  already called \<open>risk_score\<close> is renamed with the suffix \<open>_x\<close> and the new one gets
  \<open>_y\<close>; pandas rejects the merge when the renaming collides with a column of \<open>df\<close>.
  After such a renaming the merged frame has no column \<open>risk_score\<close>, and the next line of
  \<open>score_transactions\<close> raises.
\<close>

definition merge_left :: "transaction dataframe \<Rightarrow> (string \<times> int) list
                          \<Rightarrow> error + (transaction \<times> int option) dataframe" where
  "merge_left df scores =
     (if ''transaction_id'' \<notin> set (columns df) then Inl (KeyError ''transaction_id'')
      else if ''risk_score'' \<in> set (columns df) \<and> ''risk_score_x'' \<in> set (columns df)
        then Inl (MergeError
          ''Passing 'suffixes' which cause duplicate columns {'risk_score_x'} is not allowed.'')
      else Inr \<lparr>columns =
                  (if ''risk_score'' \<in> set (columns df)
                   then map (\<lambda>c. if c = ''risk_score'' then ''risk_score_x'' else c) (columns df)
                        @ [''risk_score_y'']
                   else columns df @ [''risk_score'']),
                rows = concat (map (\<lambda>t.
                  case filter (\<lambda>s. fst s = transaction_id t) scores of
                    [] \<Rightarrow> [(t, None)]
                  | ms \<Rightarrow> map (\<lambda>s. (t, Some (snd s))) ms) (rows df))\<rparr>)"

text \<open>\<open>df_scored["risk_score"] = df_scored["risk_score"].fillna(0).astype(int)\<close>.\<close>

definition with_risk_score :: "transaction \<Rightarrow> int \<Rightarrow> scored" where
  "with_risk_score t n = transaction.extend t (scored.fields n)"

definition fill_risk_score :: "(transaction \<times> int option) dataframe \<Rightarrow> error + scored dataframe" where
  "fill_risk_score merged =
     (if ''risk_score'' \<notin> set (columns merged) then Inl (KeyError ''risk_score'')
      else Inr \<lparr>columns = columns merged,
                rows = map (\<lambda>(t, s). with_risk_score t (case s of None \<Rightarrow> 0 | Some n \<Rightarrow> n))
                         (rows merged)\<rparr>)"

text \<open>The body of \<open>score_transactions\<close>, for any list of rules in place of the registry.\<close>

definition score_with :: "rule list \<Rightarrow> transaction dataframe
                          \<Rightarrow> error + (scored dataframe \<times> alert dataframe)" where
  "score_with rs df =
     ebind (apply_rules rs df []) (\<lambda>alerts_list.
     ebind (pd_concat alerts_list) (\<lambda>alerts_df.
     ebind (hit_counts alerts_df) (\<lambda>scores.
     ebind (merge_left df scores) (\<lambda>merged.
     ebind (fill_risk_score merged) (\<lambda>df_scored.
       Inr (df_scored, alerts_df))))))"

definition score_transactions :: "transaction dataframe
                                  \<Rightarrow> error + (scored dataframe \<times> alert dataframe)" where
  "score_transactions df = score_with rules df"

section \<open>The rules as the specification words them\<close>

text \<open>
  The predicates below follow the specification's description of each built-in rule; the
  theorems compare them with what the functions above compute.
\<close>

definition spec_high_instant_new_user :: "transaction \<Rightarrow> bool" where
  "spec_high_instant_new_user t \<longleftrightarrow>
     funding_speed t = ''instant'' \<and> account_age_days t < 30 \<and> amount_usd t > 500"

definition spec_rapid_high_risk_return :: "transaction \<Rightarrow> bool" where
  "spec_rapid_high_risk_return t \<longleftrightarrow>
     returned t
     \<and> (case days_to_return t of None \<Rightarrow> False | Some d \<Rightarrow> d \<le> 5)
     \<and> (case return_code t of None \<Rightarrow> False | Some c \<Rightarrow> c \<in> {''R01'', ''R10'', ''R29''})"

definition spec_distinct_users :: "transaction dataframe \<Rightarrow> string \<Rightarrow> nat" where
  "spec_distinct_users df d = card (user_id ` {t \<in> set (rows df). device_id t = d})"

definition spec_device_shared :: "transaction dataframe \<Rightarrow> int \<Rightarrow> transaction \<Rightarrow> bool" where
  "spec_device_shared df min_users t \<longleftrightarrow> int (spec_distinct_users df (device_id t)) \<ge> min_users"

section \<open>Well-formed stores and the alerts they produce\<close>

text \<open>
  The columns the built-in rules read, in the order in which \<open>score_transactions\<close> first
  reads them, and the stores the statements about scoring speak of: every column the engine
  reads is there, and no column is already called \<open>risk_score\<close>.
\<close>

definition rule_columns :: "string list" where
  "rule_columns = [''funding_speed'', ''account_age_days'', ''amount_usd'', ''returned'',
     ''days_to_return'', ''return_code'', ''device_id'', ''user_id'']"

definition store_ok :: "transaction dataframe \<Rightarrow> bool" where
  "store_ok df \<longleftrightarrow> set rule_columns \<subseteq> set (columns df)
     \<and> ''transaction_id'' \<in> set (columns df) \<and> ''risk_score'' \<notin> set (columns df)"

text \<open>
  The alert rows that the specification's predicates describe for the registry, rule by
  rule in registry order, and the number of alert rows with a given transaction id.
\<close>

definition hits :: "transaction dataframe \<Rightarrow> alert list" where
  "hits df =
     map (flag ''high_instant_ach_for_new_users'') (filter spec_high_instant_new_user (rows df))
     @ map (flag ''rapid_high_risk_returns'') (filter spec_rapid_high_risk_return (rows df))
     @ map (flag ''device_shared_by_many_users'') (filter (spec_device_shared df 5) (rows df))"

definition hit_count :: "alert list \<Rightarrow> string \<Rightarrow> int" where
  "hit_count as k = int (length (filter (\<lambda>a. transaction_id a = k) as))"

section \<open>What an error says\<close>

text \<open>
  The argument of the exception, and whether a text contains another (Python's
  \<open>sub in text\<close>). An error names a rule when its text contains the \<open>rule_name\<close> of one of
  the three rules; the functions' own names contain these, so an error that names no
  \<open>rule_name\<close> names no rule function either.
\<close>

definition rule_names :: "string list" where
  "rule_names = [''high_instant_ach_for_new_users'', ''rapid_high_risk_returns'',
     ''device_shared_by_many_users'']"

fun error_text :: "error \<Rightarrow> string" where
  "error_text (KeyError k) = k"
| "error_text (ValueError m) = m"
| "error_text (MergeError m) = m"

fun starts_with :: "string \<Rightarrow> string \<Rightarrow> bool" where
  "starts_with s [] = True"
| "starts_with [] (c # cs) = False"
| "starts_with (x # xs) (c # cs) = (x = c \<and> starts_with xs cs)"

fun mentions :: "string \<Rightarrow> string \<Rightarrow> bool" where
  "mentions [] sub = (sub = [])"
| "mentions (x # xs) sub = (starts_with (x # xs) sub \<or> mentions xs sub)"

definition names_a_rule :: "error \<Rightarrow> bool" where
  "names_a_rule e \<longleftrightarrow> list_ex (mentions (error_text e)) rule_names"

section \<open>Example stores\<close>

text \<open>A row with the columns of the generated CSV, and stores built from it by changing
  the fields a rule looks at.\<close>

definition base_txn :: transaction where
  "base_txn = \<lparr>transaction_id = ''txn_0'', user_id = ''user_1'',
     timestamp_utc = ''2025-01-01T00:00:00'', direction = ''debit'', amount_usd = 100,
     ach_type = ''PULL'', funding_speed = ''standard'', device_id = ''device_1'',
     ip_country = ''US'', return_code = None, returned = False, days_to_return = None,
     fraud_pattern_type = None, is_fraud_pattern = False, account_age_days = 100\<rparr>"

definition csv_columns :: "string list" where
  "csv_columns = [''transaction_id'', ''user_id'', ''timestamp_utc'', ''direction'',
     ''amount_usd'', ''ach_type'', ''funding_speed'', ''device_id'', ''ip_country'',
     ''return_code'', ''returned'', ''days_to_return'', ''fraud_pattern_type'',
     ''is_fraud_pattern'', ''account_age_days'']"

text \<open>The specification's pair for the instant-funding rule: amount 600 and amount 400.\<close>

definition instant_600 :: transaction where
  "instant_600 = base_txn\<lparr>transaction_id := ''txn_1'', funding_speed := ''instant'',
     account_age_days := 5, amount_usd := 600\<rparr>"

definition instant_400 :: transaction where
  "instant_400 = instant_600\<lparr>transaction_id := ''txn_2'', amount_usd := 400\<rparr>"

definition instant_store :: "transaction dataframe" where
  "instant_store = \<lparr>columns = csv_columns, rows = [instant_600, instant_400]\<rparr>"

text \<open>The specification's pair for the return rule: R01 after 3 days and after 10 days,
  next to a transaction that was not returned.\<close>

definition return_day_3 :: transaction where
  "return_day_3 = base_txn\<lparr>transaction_id := ''txn_3'', returned := True,
     days_to_return := Some 3, return_code := Some ''R01''\<rparr>"

definition return_day_10 :: transaction where
  "return_day_10 = return_day_3\<lparr>transaction_id := ''txn_4'', days_to_return := Some 10\<rparr>"

definition return_store :: "transaction dataframe" where
  "return_store = \<lparr>columns = csv_columns, rows = [return_day_3, return_day_10, base_txn]\<rparr>"

text \<open>The specification's example for the device rule: six transactions of five users
  on \<open>device_9\<close>, two transactions of two users on \<open>device_3\<close>.\<close>

definition on_device :: "string \<Rightarrow> string \<Rightarrow> string \<Rightarrow> transaction" where
  "on_device tid uid dev = base_txn\<lparr>transaction_id := tid, user_id := uid, device_id := dev\<rparr>"

definition device_store :: "transaction dataframe" where
  "device_store = \<lparr>columns = csv_columns, rows =
     [on_device ''txn_1'' ''user_1'' ''device_9'',
      on_device ''txn_2'' ''user_6'' ''device_3'',
      on_device ''txn_3'' ''user_2'' ''device_9'',
      on_device ''txn_4'' ''user_3'' ''device_9'',
      on_device ''txn_5'' ''user_1'' ''device_9'',
      on_device ''txn_6'' ''user_7'' ''device_3'',
      on_device ''txn_7'' ''user_4'' ''device_9'',
      on_device ''txn_8'' ''user_5'' ''device_9'']\<rparr>"

text \<open>
  A store whose first transaction matches all three rules, the next four only the device
  rule and the last none, with the two tables \<open>score_transactions\<close> returns for it.
\<close>

definition all_rules_txn :: transaction where
  "all_rules_txn = base_txn\<lparr>transaction_id := ''txn_1'', user_id := ''user_1'',
     device_id := ''device_9'', funding_speed := ''instant'', account_age_days := 5,
     amount_usd := 600, returned := True, days_to_return := Some 3,
     return_code := Some ''R01''\<rparr>"

definition mixed_store :: "transaction dataframe" where
  "mixed_store = \<lparr>columns = csv_columns, rows =
     [all_rules_txn,
      on_device ''txn_2'' ''user_2'' ''device_9'',
      on_device ''txn_3'' ''user_3'' ''device_9'',
      on_device ''txn_4'' ''user_4'' ''device_9'',
      on_device ''txn_5'' ''user_5'' ''device_9'',
      on_device ''txn_6'' ''user_6'' ''device_3'']\<rparr>"

definition mixed_alerts :: "alert dataframe" where
  "mixed_alerts = \<lparr>columns = csv_columns @ [''rule_name''], rows =
     [flag ''high_instant_ach_for_new_users'' all_rules_txn,
      flag ''rapid_high_risk_returns'' all_rules_txn,
      flag ''device_shared_by_many_users'' all_rules_txn,
      flag ''device_shared_by_many_users'' (on_device ''txn_2'' ''user_2'' ''device_9''),
      flag ''device_shared_by_many_users'' (on_device ''txn_3'' ''user_3'' ''device_9''),
      flag ''device_shared_by_many_users'' (on_device ''txn_4'' ''user_4'' ''device_9''),
      flag ''device_shared_by_many_users'' (on_device ''txn_5'' ''user_5'' ''device_9'')]\<rparr>"

definition mixed_scored :: "scored dataframe" where
  "mixed_scored = \<lparr>columns = csv_columns @ [''risk_score''], rows =
     [with_risk_score all_rules_txn 3,
      with_risk_score (on_device ''txn_2'' ''user_2'' ''device_9'') 1,
      with_risk_score (on_device ''txn_3'' ''user_3'' ''device_9'') 1,
      with_risk_score (on_device ''txn_4'' ''user_4'' ''device_9'') 1,
      with_risk_score (on_device ''txn_5'' ''user_5'' ''device_9'') 1,
      with_risk_score (on_device ''txn_6'' ''user_6'' ''device_3'') 0]\<rparr>"

text \<open>A store with the CSV's columns and no rows, and two stores that lack a column.\<close>

definition empty_store :: "transaction dataframe" where
  "empty_store = \<lparr>columns = csv_columns, rows = []\<rparr>"

text \<open>The frame that \<open>pd.DataFrame(records)\<close> builds from an empty list of records, as
  \<open>generate_transactions\<close> does for zero transactions: no rows and no columns.\<close>

definition no_columns_store :: "transaction dataframe" where
  "no_columns_store = \<lparr>columns = [], rows = []\<rparr>"

definition no_device_store :: "transaction dataframe" where
  "no_device_store = \<lparr>columns = remove1 ''device_id'' csv_columns, rows = [all_rules_txn]\<rparr>"

definition no_speed_store :: "transaction dataframe" where
  "no_speed_store = \<lparr>columns = remove1 ''funding_speed'' csv_columns, rows = [all_rules_txn]\<rparr>"

section \<open>Facts about the pandas operations and the rules\<close>

lemma ebind_Inr [simp]: "ebind (Inr x) f = f x"
  by (simp add: ebind_def)

lemma ebind_Inl [simp]: "ebind (Inl e) f = Inl e"
  by (simp add: ebind_def)

lemma getitem_present: "c \<in> set (columns df) \<Longrightarrow> getitem df c f = Inr (map f (rows df))"
  by (simp add: getitem_def)

lemma series_and_map: "series_and (map p xs) (map q xs) = map (\<lambda>x. p x \<and> q x) xs"
  by (induction xs) (simp_all add: series_and_def)

lemma filter_zip_map: "map fst (filter snd (zip xs (map p xs))) = filter p xs"
  by (induction xs) simp_all

lemma boolean_index_map:
  "boolean_index df (map p (rows df)) = df\<lparr>rows := filter p (rows df)\<rparr>"
  by (simp add: boolean_index_def filter_zip_map)

lemma flag_sel [simp]:
  "transaction_id (flag n t) = transaction_id t"
  "rule_name (flag n t) = n"
  "transaction.truncate (flag n t) = t"
  by (simp_all add: flag_def transaction.defs alert.defs)

lemma flag_inj: "flag n t = flag n' t' \<longleftrightarrow> n = n' \<and> t = t'"
  by (metis flag_sel(2) flag_sel(3))


lemma assign_rows: "rows (assign_rule_name df n) = map (flag n) (rows df)"
  by (simp add: assign_rule_name_def)


lemma mask_high_instant:
  "series_and (series_and (map (\<lambda>v. v = ''instant'') (map funding_speed xs))
                          (map (\<lambda>v. v < 30) (map account_age_days xs)))
              (map (\<lambda>v. v > 500) (map amount_usd xs))
   = map spec_high_instant_new_user xs"
  by (induction xs) (simp_all add: series_and_def spec_high_instant_new_user_def)

lemma rule1_ok:
  assumes "''funding_speed'' \<in> set (columns df)" "''account_age_days'' \<in> set (columns df)"
    "''amount_usd'' \<in> set (columns df)"
  shows "rule_high_instant_ach_for_new_users df =
    Inr (assign_rule_name (df\<lparr>rows := filter spec_high_instant_new_user (rows df)\<rparr>)
           ''high_instant_ach_for_new_users'')"
  unfolding rule_high_instant_ach_for_new_users_def assms [THEN getitem_present] ebind_Inr
    Let_def mask_high_instant boolean_index_map ..

lemma mask_rapid_return:
  "series_and (series_and (series_and (map (\<lambda>v. v = True) (map returned xs))
                                      (notna (map days_to_return xs)))
                          (le_scalar (map days_to_return xs) 5))
              (isin_opt (map return_code xs) [''R01'', ''R10'', ''R29''])
   = map spec_rapid_high_risk_return xs"
  by (induction xs)
     (auto simp: series_and_def notna_def le_scalar_def isin_opt_def
        spec_rapid_high_risk_return_def split: option.splits)

lemma rule2_ok:
  assumes "''returned'' \<in> set (columns df)" "''days_to_return'' \<in> set (columns df)"
    "''return_code'' \<in> set (columns df)"
  shows "rule_rapid_high_risk_returns df =
    Inr (assign_rule_name (df\<lparr>rows := filter spec_rapid_high_risk_return (rows df)\<rparr>)
           ''rapid_high_risk_returns'')"
  unfolding rule_rapid_high_risk_returns_def assms [THEN getitem_present] ebind_Inr
    Let_def mask_rapid_return boolean_index_map ..

lemma nunique_card:
  "length (remdups (map user_id (filter (\<lambda>t. device_id t = d) (rows df)))) = spec_distinct_users df d"
  by (simp add: length_remdups_card_conv spec_distinct_users_def)

lemma suspicious_devices_mem:
  "d \<in> set (map fst (filter (\<lambda>r. m \<le> snd r) (map (\<lambda>d. (d, f d)) ds))) \<longleftrightarrow> d \<in> set ds \<and> m \<le> f d"
  by (induction ds) auto

lemma rule3_ok:
  assumes "''device_id'' \<in> set (columns df)" "''user_id'' \<in> set (columns df)"
  shows "rule_device_shared_by_many_users df m =
    Inr (assign_rule_name (df\<lparr>rows := filter (spec_device_shared df m) (rows df)\<rparr>)
           ''device_shared_by_many_users'')"
proof -
  let ?counts = "map (\<lambda>d. (d, int (spec_distinct_users df d)))
                   (sort (remdups (map device_id (rows df))))"
  let ?sus = "map fst (filter (\<lambda>r. m \<le> snd r) ?counts)"
  have counts: "device_user_counts df = Inr ?counts"
    using assms by (simp add: device_user_counts_def nunique_card)
  have mem: "device_id t \<in> set ?sus \<longleftrightarrow> spec_device_shared df m t" if "t \<in> set (rows df)" for t
    unfolding suspicious_devices_mem using that by (simp add: spec_device_shared_def)
  have msk: "map (\<lambda>v. v \<in> set ?sus) (map device_id (rows df))
             = map (spec_device_shared df m) (rows df)"
    unfolding map_map by (rule map_cong [OF refl]) (simp only: o_def mem)
  show ?thesis
    unfolding rule_device_shared_by_many_users_def counts assms(1) [THEN getitem_present]
      ebind_Inr Let_def msk boolean_index_map ..
qed

section \<open>The built-in rules\<close>

text \<open>
  C3: on a store that has the columns \<open>funding_speed\<close>, \<open>account_age_days\<close> and
  \<open>amount_usd\<close>, \<open>rule_high_instant_ach_for_new_users\<close> returns, in store order and
  tagged with its name, exactly the transactions whose funding speed is instant, whose
  account is younger than 30 days and whose amount exceeds 500. A transaction of the store
  is flagged if and only if it meets the three conditions; an instant transaction of a
  5-day-old account is flagged at amount 600 and not flagged at amount 400.
\<close>

theorem high_instant_rule_flags_iff:
  assumes "''funding_speed'' \<in> set (columns df)" "''account_age_days'' \<in> set (columns df)"
    "''amount_usd'' \<in> set (columns df)"
  shows "\<exists>out. rule_high_instant_ach_for_new_users df = Inr out
     \<and> rows out = map (flag ''high_instant_ach_for_new_users'')
         (filter (\<lambda>t. funding_speed t = ''instant'' \<and> account_age_days t < 30
                       \<and> amount_usd t > 500) (rows df))
     \<and> (\<forall>t \<in> set (rows df). flag ''high_instant_ach_for_new_users'' t \<in> set (rows out)
           \<longleftrightarrow> funding_speed t = ''instant'' \<and> account_age_days t < 30 \<and> amount_usd t > 500)
     \<and> (\<forall>t \<in> set (rows df). funding_speed t = ''instant'' \<and> account_age_days t = 5
           \<longrightarrow> (amount_usd t = 600 \<longrightarrow> flag ''high_instant_ach_for_new_users'' t \<in> set (rows out))
             \<and> (amount_usd t = 400 \<longrightarrow> flag ''high_instant_ach_for_new_users'' t \<notin> set (rows out)))"
proof -
  let ?out = "assign_rule_name (df\<lparr>rows := filter spec_high_instant_new_user (rows df)\<rparr>)
                ''high_instant_ach_for_new_users''"
  have p: "spec_high_instant_new_user = (\<lambda>t. funding_speed t = ''instant''
             \<and> account_age_days t < 30 \<and> amount_usd t > 500)"
    by (simp add: fun_eq_iff spec_high_instant_new_user_def)
  have run: "rule_high_instant_ach_for_new_users df = Inr ?out"
    using assms by (rule rule1_ok)
  have rws: "rows ?out = map (flag ''high_instant_ach_for_new_users'')
               (filter (\<lambda>t. funding_speed t = ''instant'' \<and> account_age_days t < 30
                             \<and> amount_usd t > 500) (rows df))"
    by (simp add: p assign_rows)
  have iff: "flag ''high_instant_ach_for_new_users'' t \<in> set (rows ?out)
      \<longleftrightarrow> funding_speed t = ''instant'' \<and> account_age_days t < 30 \<and> amount_usd t > 500"
    if "t \<in> set (rows df)" for t
    using that unfolding rws by (auto simp: flag_inj)
  have ex: "(amount_usd t = 600 \<longrightarrow> flag ''high_instant_ach_for_new_users'' t \<in> set (rows ?out))
          \<and> (amount_usd t = 400 \<longrightarrow> flag ''high_instant_ach_for_new_users'' t \<notin> set (rows ?out))"
    if "t \<in> set (rows df)" "funding_speed t = ''instant''" "account_age_days t = 5" for t
    using that by (simp add: iff)
  show ?thesis
    using run rws iff ex by blast
qed

theorem high_instant_rule_flags_iff_witness:
  "''funding_speed'' \<in> set (columns instant_store)
   \<and> ''account_age_days'' \<in> set (columns instant_store)
   \<and> ''amount_usd'' \<in> set (columns instant_store)
   \<and> (\<exists>out. rule_high_instant_ach_for_new_users instant_store = Inr out
         \<and> rows out = [flag ''high_instant_ach_for_new_users'' instant_600])"
proof -
  have c: "''funding_speed'' \<in> set (columns instant_store)"
    "''account_age_days'' \<in> set (columns instant_store)"
    "''amount_usd'' \<in> set (columns instant_store)"
    by (simp_all add: instant_store_def csv_columns_def)
  have r: "filter (\<lambda>t. funding_speed t = ''instant'' \<and> account_age_days t < 30
                       \<and> amount_usd t > 500) (rows instant_store) = [instant_600]"
    by (simp add: instant_store_def instant_600_def instant_400_def base_txn_def)
  from high_instant_rule_flags_iff [OF c] obtain out where
    "rule_high_instant_ach_for_new_users instant_store = Inr out"
    "rows out = map (flag ''high_instant_ach_for_new_users'')
         (filter (\<lambda>t. funding_speed t = ''instant'' \<and> account_age_days t < 30
                       \<and> amount_usd t > 500) (rows instant_store))"
    by blast
  then have "\<exists>out. rule_high_instant_ach_for_new_users instant_store = Inr out
         \<and> rows out = [flag ''high_instant_ach_for_new_users'' instant_600]"
    unfolding r by simp
  with c show ?thesis by blast
qed

text \<open>
  C5: on a store that has the columns \<open>returned\<close>, \<open>days_to_return\<close> and \<open>return_code\<close>,
  \<open>rule_rapid_high_risk_returns\<close> returns without raising, and flags a transaction if and
  only if it is returned, its days to return are present and at most 5, and its return code
  is one of R01, R10 and R29. A transaction whose return code or days to return is absent
  is not flagged. A returned R01 transaction is flagged at 3 days and not flagged at 10.
\<close>

theorem rapid_return_rule_flags_iff:
  assumes "''returned'' \<in> set (columns df)" "''days_to_return'' \<in> set (columns df)"
    "''return_code'' \<in> set (columns df)"
  shows "\<exists>out. rule_rapid_high_risk_returns df = Inr out
     \<and> rows out = map (flag ''rapid_high_risk_returns'')
                     (filter spec_rapid_high_risk_return (rows df))
     \<and> (\<forall>t \<in> set (rows df). flag ''rapid_high_risk_returns'' t \<in> set (rows out)
           \<longleftrightarrow> returned t \<and> (\<exists>d. days_to_return t = Some d \<and> d \<le> 5)
               \<and> (\<exists>c. return_code t = Some c \<and> c \<in> {''R01'', ''R10'', ''R29''}))
     \<and> (\<forall>t \<in> set (rows df). return_code t = None \<or> days_to_return t = None
           \<longrightarrow> flag ''rapid_high_risk_returns'' t \<notin> set (rows out))
     \<and> (\<forall>t \<in> set (rows df). returned t \<and> return_code t = Some ''R01''
           \<longrightarrow> (days_to_return t = Some 3 \<longrightarrow> flag ''rapid_high_risk_returns'' t \<in> set (rows out))
             \<and> (days_to_return t = Some 10 \<longrightarrow> flag ''rapid_high_risk_returns'' t \<notin> set (rows out)))"
proof -
  let ?n = "''rapid_high_risk_returns''"
  let ?out = "assign_rule_name (df\<lparr>rows := filter spec_rapid_high_risk_return (rows df)\<rparr>) ?n"
  have run: "rule_rapid_high_risk_returns df = Inr ?out"
    using assms by (rule rule2_ok)
  have rws: "rows ?out = map (flag ?n) (filter spec_rapid_high_risk_return (rows df))"
    by (simp add: assign_rows)
  have mem: "flag ?n t \<in> set (rows ?out) \<longleftrightarrow> spec_rapid_high_risk_return t"
    if "t \<in> set (rows df)" for t
    using that unfolding rws by (auto simp: flag_inj)
  have iff: "flag ?n t \<in> set (rows ?out)
      \<longleftrightarrow> returned t \<and> (\<exists>d. days_to_return t = Some d \<and> d \<le> 5)
          \<and> (\<exists>c. return_code t = Some c \<and> c \<in> {''R01'', ''R10'', ''R29''})"
    if "t \<in> set (rows df)" for t
    unfolding mem [OF that]
    by (auto simp: spec_rapid_high_risk_return_def split: option.splits)
  have absent: "flag ?n t \<notin> set (rows ?out)"
    if "t \<in> set (rows df)" "return_code t = None \<or> days_to_return t = None" for t
    unfolding mem [OF that(1)] using that(2)
    by (auto simp: spec_rapid_high_risk_return_def)
  have ex: "(days_to_return t = Some 3 \<longrightarrow> flag ?n t \<in> set (rows ?out))
          \<and> (days_to_return t = Some 10 \<longrightarrow> flag ?n t \<notin> set (rows ?out))"
    if "t \<in> set (rows df)" "returned t \<and> return_code t = Some ''R01''" for t
    unfolding mem [OF that(1)] using that(2)
    by (auto simp: spec_rapid_high_risk_return_def)
  show ?thesis
    using run rws iff absent ex by blast
qed

theorem rapid_return_rule_flags_iff_witness:
  "''returned'' \<in> set (columns return_store)
   \<and> ''days_to_return'' \<in> set (columns return_store)
   \<and> ''return_code'' \<in> set (columns return_store)
   \<and> (\<exists>out. rule_rapid_high_risk_returns return_store = Inr out
         \<and> rows out = [flag ''rapid_high_risk_returns'' return_day_3])"
proof -
  have c: "''returned'' \<in> set (columns return_store)"
    "''days_to_return'' \<in> set (columns return_store)"
    "''return_code'' \<in> set (columns return_store)"
    by (simp_all add: return_store_def csv_columns_def)
  have r: "filter spec_rapid_high_risk_return (rows return_store) = [return_day_3]"
    by (simp add: return_store_def return_day_3_def return_day_10_def base_txn_def
        spec_rapid_high_risk_return_def)
  from rapid_return_rule_flags_iff [OF c] obtain out where
    "rule_rapid_high_risk_returns return_store = Inr out"
    "rows out = map (flag ''rapid_high_risk_returns'')
                  (filter spec_rapid_high_risk_return (rows return_store))"
    by blast
  then have "\<exists>out. rule_rapid_high_risk_returns return_store = Inr out
         \<and> rows out = [flag ''rapid_high_risk_returns'' return_day_3]"
    unfolding r by simp
  with c show ?thesis by blast
qed

text \<open>
  C4: on a store that has the columns \<open>device_id\<close> and \<open>user_id\<close>,
  \<open>rule_device_shared_by_many_users\<close> flags a transaction if and only if the number of
  distinct users seen on the transaction's device anywhere in the store is at least
  \<open>min_users\<close>. On the store of the specification's example, six transactions of five
  users on \<open>device_9\<close> and two transactions of two users on \<open>device_3\<close>, the rule with
  \<open>min_users = 5\<close> returns the six transactions on \<open>device_9\<close> and no other.
\<close>

theorem device_rule_flags_iff:
  assumes "''device_id'' \<in> set (columns df)" "''user_id'' \<in> set (columns df)"
  shows "\<exists>out. rule_device_shared_by_many_users df min_users = Inr out
     \<and> rows out = map (flag ''device_shared_by_many_users'')
                     (filter (spec_device_shared df min_users) (rows df))
     \<and> (\<forall>t \<in> set (rows df). flag ''device_shared_by_many_users'' t \<in> set (rows out)
           \<longleftrightarrow> min_users \<le> int (card (user_id ` {r \<in> set (rows df). device_id r = device_id t})))"
proof -
  let ?n = "''device_shared_by_many_users''"
  let ?out = "assign_rule_name (df\<lparr>rows := filter (spec_device_shared df min_users) (rows df)\<rparr>) ?n"
  have run: "rule_device_shared_by_many_users df min_users = Inr ?out"
    using assms by (rule rule3_ok)
  have rws: "rows ?out = map (flag ?n) (filter (spec_device_shared df min_users) (rows df))"
    by (simp add: assign_rows)
  have iff: "flag ?n t \<in> set (rows ?out)
      \<longleftrightarrow> min_users \<le> int (card (user_id ` {r \<in> set (rows df). device_id r = device_id t}))"
    if "t \<in> set (rows df)" for t
    using that unfolding rws
    by (auto simp: flag_inj spec_device_shared_def spec_distinct_users_def)
  show ?thesis
    using run rws iff by blast
qed

theorem device_rule_flags_iff_witness:
  "''device_id'' \<in> set (columns device_store) \<and> ''user_id'' \<in> set (columns device_store)
   \<and> (\<exists>out. rule_device_shared_by_many_users device_store 5 = Inr out
         \<and> map transaction_id (rows out)
             = [''txn_1'', ''txn_3'', ''txn_4'', ''txn_5'', ''txn_7'', ''txn_8'']
         \<and> (\<forall>a \<in> set (rows out). device_id a = ''device_9''))"
proof -
  have c: "''device_id'' \<in> set (columns device_store)" "''user_id'' \<in> set (columns device_store)"
    by (simp_all add: device_store_def csv_columns_def)
  have r: "filter (spec_device_shared device_store 5) (rows device_store) =
     [on_device ''txn_1'' ''user_1'' ''device_9'',
      on_device ''txn_3'' ''user_2'' ''device_9'',
      on_device ''txn_4'' ''user_3'' ''device_9'',
      on_device ''txn_5'' ''user_1'' ''device_9'',
      on_device ''txn_7'' ''user_4'' ''device_9'',
      on_device ''txn_8'' ''user_5'' ''device_9'']"
    by (simp add: spec_device_shared_def nunique_card [symmetric] device_store_def
        on_device_def base_txn_def)
  from device_rule_flags_iff [OF c, of 5] obtain out where
    "rule_device_shared_by_many_users device_store 5 = Inr out"
    "rows out = map (flag ''device_shared_by_many_users'')
                  (filter (spec_device_shared device_store 5) (rows device_store))"
    by blast
  then have "\<exists>out. rule_device_shared_by_many_users device_store 5 = Inr out
         \<and> map transaction_id (rows out)
             = [''txn_1'', ''txn_3'', ''txn_4'', ''txn_5'', ''txn_7'', ''txn_8'']
         \<and> (\<forall>a \<in> set (rows out). device_id a = ''device_9'')"
    unfolding r by (simp add: on_device_def base_txn_def flag_def transaction.defs alert.defs)
  with c show ?thesis by blast
qed

section \<open>Facts about the scoring pipeline\<close>

lemma with_risk_score_sel [simp]:
  "transaction_id (with_risk_score t n) = transaction_id t"
  "risk_score (with_risk_score t n) = n"
  "transaction.truncate (with_risk_score t n) = t"
  by (simp_all add: with_risk_score_def transaction.defs scored.defs)

lemma set_union_labels [simp]: "set (union_labels cs) = set cs"
  by (simp add: union_labels_def)

lemma apply_rules_all_ok:
  assumes "\<forall>r \<in> set rs. r df = Inr (f r)"
  shows "apply_rules rs df acc = Inr (acc @ map f rs)"
  using assms by (induction rs arbitrary: acc) simp_all

lemma apply_rules_some_fail:
  assumes "r \<in> set rs" "r df = Inl e"
  shows "\<exists>e'. apply_rules rs df acc = Inl e'"
  using assms
proof (induction rs arbitrary: acc)
  case Nil
  then show ?case by simp
next
  case (Cons a rs)
  then show ?case by (cases "a df") auto
qed

lemma scores_lookup:
  assumes "distinct ks"
  shows "filter (\<lambda>s. fst s = k) (map (\<lambda>k. (k, f k)) ks) = (if k \<in> set ks then [(k, f k)] else [])"
  using assms by (induction ks) auto

lemma concat_singletons: "concat (map (\<lambda>t. [f t]) xs) = map f xs"
  by (induction xs) simp_all

lemma hit_counts_ok:
  assumes "''transaction_id'' \<in> set (columns a)" "''rule_name'' \<in> set (columns a)"
  shows "hit_counts a = Inr (map (\<lambda>k. (k, hit_count (rows a) k))
                              (sort (remdups (map transaction_id (rows a)))))"
  using assms by (simp add: hit_counts_def hit_count_def)

lemma hit_count_zero: "k \<notin> transaction_id ` set as \<Longrightarrow> hit_count as k = 0"
  by (auto simp: hit_count_def filter_empty_conv)

lemma merge_left_ok:
  assumes "''transaction_id'' \<in> set (columns df)" "''risk_score'' \<notin> set (columns df)"
  shows "merge_left df (map (\<lambda>k. (k, hit_count as k)) (sort (remdups (map transaction_id as))))
    = Inr \<lparr>columns = columns df @ [''risk_score''],
           rows = map (\<lambda>t. (t, if transaction_id t \<in> transaction_id ` set as
                               then Some (hit_count as (transaction_id t)) else None)) (rows df)\<rparr>"
proof -
  have row: "(case filter (\<lambda>s. fst s = transaction_id t)
                 (map (\<lambda>k. (k, hit_count as k)) (sort (remdups (map transaction_id as)))) of
            [] \<Rightarrow> [(t, None)] | ms \<Rightarrow> map (\<lambda>s. (t, Some (snd s))) ms)
      = [(t, if transaction_id t \<in> transaction_id ` set as
             then Some (hit_count as (transaction_id t)) else None)]" for t :: transaction
    by (simp add: scores_lookup)
  show ?thesis
    using assms by (simp add: merge_left_def row concat_singletons)
qed

lemma scoring_tail:
  assumes "''transaction_id'' \<in> set (columns a)" "''rule_name'' \<in> set (columns a)"
    "''transaction_id'' \<in> set (columns df)" "''risk_score'' \<notin> set (columns df)"
  shows "ebind (hit_counts a) (\<lambda>scores.
         ebind (merge_left df scores) (\<lambda>merged.
         ebind (fill_risk_score merged) (\<lambda>df_scored. Inr (df_scored, a))))
    = Inr (\<lparr>columns = columns df @ [''risk_score''],
            rows = map (\<lambda>t. with_risk_score t (hit_count (rows a) (transaction_id t))) (rows df)\<rparr>, a)"
proof -
  have "(\<lambda>t. with_risk_score t (case (if transaction_id t \<in> transaction_id ` set (rows a)
                then Some (hit_count (rows a) (transaction_id t)) else None) of
             None \<Rightarrow> 0 | Some n \<Rightarrow> n))
      = (\<lambda>t. with_risk_score t (hit_count (rows a) (transaction_id t)))"
    by (rule ext) (simp add: hit_count_zero)
  then show ?thesis
    by (simp add: hit_counts_ok [OF assms(1,2)] merge_left_ok [OF assms(3,4)]
        fill_risk_score_def o_def)
qed


lemma rules_ok:
  assumes "set rule_columns \<subseteq> set (columns df)"
  shows "apply_rules rules df [] = Inr
    [assign_rule_name (df\<lparr>rows := filter spec_high_instant_new_user (rows df)\<rparr>)
       ''high_instant_ach_for_new_users'',
     assign_rule_name (df\<lparr>rows := filter spec_rapid_high_risk_return (rows df)\<rparr>)
       ''rapid_high_risk_returns'',
     assign_rule_name (df\<lparr>rows := filter (spec_device_shared df 5) (rows df)\<rparr>)
       ''device_shared_by_many_users'']"
  using assms by (simp add: rules_def rule_columns_def rule1_ok rule2_ok rule3_ok)

lemma concat_hits:
  "pd_concat
    [assign_rule_name (df\<lparr>rows := filter spec_high_instant_new_user (rows df)\<rparr>)
       ''high_instant_ach_for_new_users'',
     assign_rule_name (df\<lparr>rows := filter spec_rapid_high_risk_return (rows df)\<rparr>)
       ''rapid_high_risk_returns'',
     assign_rule_name (df\<lparr>rows := filter (spec_device_shared df 5) (rows df)\<rparr>)
       ''device_shared_by_many_users'']
   = Inr \<lparr>columns = union_labels (concat (replicate 3
             (if ''rule_name'' \<in> set (columns df) then columns df
              else columns df @ [''rule_name'']))),
          rows = hits df\<rparr>"
  by (simp add: pd_concat_def hits_def assign_rule_name_def numeral_3_eq_3)

lemma score_transactions_ok:
  assumes "store_ok df"
  shows "score_transactions df =
    Inr (\<lparr>columns = columns df @ [''risk_score''],
          rows = map (\<lambda>t. with_risk_score t (hit_count (hits df) (transaction_id t))) (rows df)\<rparr>,
         \<lparr>columns = union_labels (concat (replicate 3
             (if ''rule_name'' \<in> set (columns df) then columns df
              else columns df @ [''rule_name'']))),
          rows = hits df\<rparr>)"
proof -
  let ?a = "\<lparr>columns = union_labels (concat (replicate 3
             (if ''rule_name'' \<in> set (columns df) then columns df
              else columns df @ [''rule_name'']))),
          rows = hits df\<rparr>"
  have c: "set rule_columns \<subseteq> set (columns df)" "''transaction_id'' \<in> set (columns df)"
    "''risk_score'' \<notin> set (columns df)"
    using assms by (simp_all add: store_ok_def)
  have a1: "''transaction_id'' \<in> set (columns ?a)" and a2: "''rule_name'' \<in> set (columns ?a)"
    using c(2) by (simp_all add: numeral_3_eq_3)
  show ?thesis
    unfolding score_transactions_def score_with_def rules_ok [OF c(1)] ebind_Inr concat_hits
      scoring_tail [OF a1 a2 c(2,3)]
    by simp
qed

lemma hits_pairs_distinct:
  assumes "distinct (map transaction_id (rows df))"
  shows "distinct (map (\<lambda>a. (transaction_id a, rule_name a)) (hits df))"
proof -
  have d: "distinct (map (\<lambda>t. (transaction_id t, n)) (filter P (rows df)))" for n :: string and P
  proof -
    have "distinct (map transaction_id (filter P (rows df)))"
      using assms by (rule distinct_map_filter)
    then have "distinct (map fst (map (\<lambda>t. (transaction_id t, n)) (filter P (rows df))))"
      by (simp add: o_def)
    then show ?thesis
      by (rule distinct_map [THEN iffD1, THEN conjunct1])
  qed
  show ?thesis
    unfolding hits_def by (auto simp: o_def d)
qed

lemma hit_count_card:
  assumes "distinct (map (\<lambda>a. (transaction_id a, rule_name a)) as)"
  shows "hit_count as k = int (card (rule_name ` {a \<in> set as. transaction_id a = k}))"
proof -
  let ?xs = "filter (\<lambda>a. transaction_id a = k) as"
  have "distinct (map (\<lambda>a. (transaction_id a, rule_name a)) ?xs)"
    using assms by (rule distinct_map_filter)
  moreover have "map (\<lambda>a. (transaction_id a, rule_name a)) ?xs = map (Pair k) (map rule_name ?xs)"
    by (induction as) simp_all
  ultimately have "distinct (map (Pair k) (map rule_name ?xs))"
    by (simp only:)
  then have "distinct (map rule_name ?xs)"
    by (rule distinct_map [THEN iffD1, THEN conjunct1])
  then have "card (set (map rule_name ?xs)) = length ?xs"
    using distinct_card by fastforce
  then show ?thesis
    by (simp add: hit_count_def)
qed

lemma rule_names_of_hits:
  "rule_name ` set (hits df) \<subseteq>
     {''high_instant_ach_for_new_users'', ''rapid_high_risk_returns'', ''device_shared_by_many_users''}"
  by (auto simp: hits_def)


subsection \<open>The run on the mixed store\<close>

lemma mixed_store_ok: "store_ok mixed_store"
  by (simp add: store_ok_def mixed_store_def csv_columns_def rule_columns_def)

lemma mixed_store_distinct: "distinct (map transaction_id (rows mixed_store))"
  by (simp add: mixed_store_def all_rules_txn_def on_device_def base_txn_def)

lemma mixed_store_hits: "hits mixed_store = rows mixed_alerts"
  by (simp add: hits_def mixed_alerts_def mixed_store_def spec_high_instant_new_user_def
      spec_rapid_high_risk_return_def spec_device_shared_def nunique_card [symmetric]
      all_rules_txn_def on_device_def base_txn_def)

lemma mixed_store_run: "score_transactions mixed_store = Inr (mixed_scored, mixed_alerts)"
proof -
  have "map (\<lambda>t. with_risk_score t (hit_count (rows mixed_alerts) (transaction_id t)))
          (rows mixed_store) = rows mixed_scored"
    by (simp add: hit_count_def mixed_alerts_def mixed_store_def mixed_scored_def
        all_rules_txn_def on_device_def base_txn_def)
  moreover have "union_labels (concat (replicate 3 (csv_columns @ [''rule_name'']))) =
      csv_columns @ [''rule_name'']"
    by (simp add: union_labels_def csv_columns_def numeral_3_eq_3)
  moreover have "''rule_name'' \<notin> set (columns mixed_store)" "columns mixed_store = csv_columns"
    by (simp_all add: mixed_store_def csv_columns_def)
  ultimately show ?thesis
    unfolding score_transactions_ok [OF mixed_store_ok] mixed_store_hits
    by (simp add: mixed_scored_def mixed_alerts_def)
qed


section \<open>Scoring a well-formed store\<close>

text \<open>
  C1: on a store with the columns the engine reads, no \<open>risk_score\<close> column and pairwise
  distinct transaction ids, \<open>score_transactions\<close> returns, the scored rows are the store's
  rows in order, and the \<open>risk_score\<close> of each is the number of distinct rule names that
  the alerts pair with its transaction id.
\<close>

theorem risk_score_counts_distinct_rule_names:
  assumes "store_ok df" "distinct (map transaction_id (rows df))"
  shows "\<exists>df_scored alerts_df. score_transactions df = Inr (df_scored, alerts_df)
     \<and> map transaction.truncate (rows df_scored) = rows df
     \<and> (\<forall>s \<in> set (rows df_scored). risk_score s =
           int (card (rule_name ` {a \<in> set (rows alerts_df). transaction_id a = transaction_id s})))"
proof -
  have "hit_count (hits df) k = int (card (rule_name ` {a \<in> set (hits df). transaction_id a = k}))"
    for k
    by (rule hit_count_card) (rule hits_pairs_distinct [OF assms(2)])
  then show ?thesis
    unfolding score_transactions_ok [OF assms(1)] by (auto simp: o_def)
qed

theorem risk_score_counts_distinct_rule_names_witness:
  "store_ok mixed_store \<and> distinct (map transaction_id (rows mixed_store))
   \<and> score_transactions mixed_store = Inr (mixed_scored, mixed_alerts)
   \<and> map risk_score (rows mixed_scored) = [3, 1, 1, 1, 1, 0]
   \<and> map (\<lambda>s. int (card (rule_name `
           {a \<in> set (rows mixed_alerts). transaction_id a = transaction_id s})))
        (rows mixed_scored) = [3, 1, 1, 1, 1, 0]"
proof -
  have v: "map risk_score (rows mixed_scored) = [3, 1, 1, 1, 1, 0]"
    by (simp add: mixed_scored_def)
  from risk_score_counts_distinct_rule_names [OF mixed_store_ok mixed_store_distinct]
  have "\<forall>s \<in> set (rows mixed_scored). risk_score s =
      int (card (rule_name ` {a \<in> set (rows mixed_alerts). transaction_id a = transaction_id s}))"
    unfolding mixed_store_run by simp
  then have "map (\<lambda>s. int (card (rule_name `
           {a \<in> set (rows mixed_alerts). transaction_id a = transaction_id s})))
        (rows mixed_scored) = map risk_score (rows mixed_scored)"
    by (intro map_cong [OF refl]) simp
  with v mixed_store_ok mixed_store_distinct mixed_store_run show ?thesis
    by simp
qed

text \<open>
  C2: on such a store the scored output has the rows of the store, each once and in
  order, so its transaction ids are those of the store without loss or repetition; a
  transaction whose id occurs in no alert has \<open>risk_score = 0\<close>.
\<close>

theorem scored_keeps_every_transaction:
  assumes "store_ok df" "distinct (map transaction_id (rows df))"
  shows "\<exists>df_scored alerts_df. score_transactions df = Inr (df_scored, alerts_df)
     \<and> map transaction.truncate (rows df_scored) = rows df
     \<and> map transaction_id (rows df_scored) = map transaction_id (rows df)
     \<and> transaction_id ` set (rows df_scored) = transaction_id ` set (rows df)
     \<and> distinct (map transaction_id (rows df_scored))
     \<and> (\<forall>s \<in> set (rows df_scored).
           transaction_id s \<notin> transaction_id ` set (rows alerts_df) \<longrightarrow> risk_score s = 0)"
proof -
  let ?S = "map (\<lambda>t. with_risk_score t (hit_count (hits df) (transaction_id t))) (rows df)"
  have ids: "map transaction_id ?S = map transaction_id (rows df)"
    by (simp add: o_def)
  have "transaction_id ` set ?S = set (map transaction_id ?S)"
    by (simp only: set_map)
  then have img: "transaction_id ` set ?S = transaction_id ` set (rows df)"
    unfolding ids by simp
  have zero: "risk_score s = 0"
    if "s \<in> set ?S" "transaction_id s \<notin> transaction_id ` set (hits df)" for s
    using that by (auto simp: hit_count_zero)
  have "map transaction.truncate ?S = rows df"
    by (simp add: o_def)
  moreover have "distinct (map transaction_id ?S)"
    unfolding ids by (rule assms(2))
  ultimately show ?thesis
    unfolding score_transactions_ok [OF assms(1)] using ids img zero by simp
qed

theorem scored_keeps_every_transaction_witness:
  "store_ok mixed_store \<and> distinct (map transaction_id (rows mixed_store))
   \<and> score_transactions mixed_store = Inr (mixed_scored, mixed_alerts)
   \<and> map transaction_id (rows mixed_scored)
       = [''txn_1'', ''txn_2'', ''txn_3'', ''txn_4'', ''txn_5'', ''txn_6'']
   \<and> transaction_id (last (rows mixed_scored)) \<notin> transaction_id ` set (rows mixed_alerts)
   \<and> risk_score (last (rows mixed_scored)) = 0"
proof -
  have ids: "map transaction_id (rows mixed_store)
       = [''txn_1'', ''txn_2'', ''txn_3'', ''txn_4'', ''txn_5'', ''txn_6'']"
    by (simp add: mixed_store_def all_rules_txn_def on_device_def base_txn_def)
  have l: "last (rows mixed_scored) \<in> set (rows mixed_scored)"
    by (simp add: mixed_scored_def)
  have n: "transaction_id (last (rows mixed_scored)) \<notin> transaction_id ` set (rows mixed_alerts)"
    by (simp add: mixed_scored_def mixed_alerts_def all_rules_txn_def on_device_def base_txn_def)
  from scored_keeps_every_transaction [OF mixed_store_ok mixed_store_distinct]
  have "map transaction_id (rows mixed_scored) = map transaction_id (rows mixed_store)"
    and "\<forall>s \<in> set (rows mixed_scored).
           transaction_id s \<notin> transaction_id ` set (rows mixed_alerts) \<longrightarrow> risk_score s = 0"
    unfolding mixed_store_run by simp_all
  with ids l n mixed_store_ok mixed_store_distinct mixed_store_run show ?thesis
    by simp
qed

text \<open>
  C7: on such a store the alerts are the outputs of the rules of the registry one after
  the other, so their number is the sum over the rules of the number of rows each rule
  returns; and no pair of transaction id and rule name occurs twice among them.
\<close>

theorem alerts_are_all_rule_hits_once:
  assumes "store_ok df" "distinct (map transaction_id (rows df))"
  shows "\<exists>df_scored alerts_df. score_transactions df = Inr (df_scored, alerts_df)
     \<and> length (rows alerts_df)
         = (\<Sum>r \<leftarrow> rules. case r df of Inl e \<Rightarrow> 0 | Inr out \<Rightarrow> length (rows out))
     \<and> length (rows alerts_df)
         = length (filter spec_high_instant_new_user (rows df))
           + length (filter spec_rapid_high_risk_return (rows df))
           + length (filter (spec_device_shared df 5) (rows df))
     \<and> distinct (map (\<lambda>a. (transaction_id a, rule_name a)) (rows alerts_df))"
proof -
  have c: "set rule_columns \<subseteq> set (columns df)"
    using assms(1) by (simp add: store_ok_def)
  have len: "length (hits df) = length (filter spec_high_instant_new_user (rows df))
           + length (filter spec_rapid_high_risk_return (rows df))
           + length (filter (spec_device_shared df 5) (rows df))"
    by (simp add: hits_def)
  have "(\<Sum>r \<leftarrow> rules. case r df of Inl e \<Rightarrow> 0 | Inr out \<Rightarrow> length (rows out))
      = length (filter spec_high_instant_new_user (rows df))
           + length (filter spec_rapid_high_risk_return (rows df))
           + length (filter (spec_device_shared df 5) (rows df))"
    using c by (simp add: rules_def rule_columns_def rule1_ok rule2_ok rule3_ok assign_rows)
  with len hits_pairs_distinct [OF assms(2)] show ?thesis
    unfolding score_transactions_ok [OF assms(1)] by simp
qed

theorem alerts_are_all_rule_hits_once_witness:
  "store_ok mixed_store \<and> distinct (map transaction_id (rows mixed_store))
   \<and> score_transactions mixed_store = Inr (mixed_scored, mixed_alerts)
   \<and> length (rows mixed_alerts) = 7
   \<and> distinct (map (\<lambda>a. (transaction_id a, rule_name a)) (rows mixed_alerts))"
proof -
  have "length (rows mixed_alerts) = 7"
    by (simp add: mixed_alerts_def)
  with alerts_are_all_rule_hits_once [OF mixed_store_ok mixed_store_distinct]
    mixed_store_ok mixed_store_distinct
  show ?thesis
    unfolding mixed_store_run by simp
qed

text \<open>
  C9 (as the code has it): on a store with no rows that has the columns the engine reads
  and no \<open>risk_score\<close> column, \<open>score_transactions\<close> returns, and both the scored table
  and the alert table have no rows.
\<close>

theorem empty_store_scores_empty:
  assumes "store_ok df" "rows df = []"
  shows "\<exists>df_scored alerts_df. score_transactions df = Inr (df_scored, alerts_df)
     \<and> rows df_scored = [] \<and> rows alerts_df = []"
  unfolding score_transactions_ok [OF assms(1)] by (simp add: assms(2) hits_def)

theorem empty_store_scores_empty_witness:
  "store_ok empty_store \<and> rows empty_store = []
   \<and> (\<exists>df_scored alerts_df. score_transactions empty_store = Inr (df_scored, alerts_df)
        \<and> rows df_scored = [] \<and> rows alerts_df = [])"
proof -
  have ok: "store_ok empty_store"
    by (simp add: store_ok_def empty_store_def csv_columns_def rule_columns_def)
  have e: "rows empty_store = []"
    by (simp add: empty_store_def)
  from empty_store_scores_empty [OF ok e] ok e show ?thesis
    by blast
qed

text \<open>
  C9 as the specification states it, for every store with zero transactions, fails on the
  store with no rows and no columns: the first rule reads \<open>df["funding_speed"]\<close>, and the
  run ends in \<open>KeyError("funding_speed")\<close> instead of two empty tables.
\<close>

theorem empty_store_without_columns_raises:
  "rows no_columns_store = []
   \<and> score_transactions no_columns_store = Inl (KeyError ''funding_speed'')"
  by (simp add: no_columns_store_def score_transactions_def score_with_def rules_def
      rule_high_instant_ach_for_new_users_def getitem_def)

text \<open>
  C10: on a store with the columns the engine reads, no \<open>risk_score\<close> column and pairwise
  distinct transaction ids, every \<open>risk_score\<close> is at least 0 and at most 3, the number of
  rules in the registry.
\<close>

theorem risk_score_between_0_and_3:
  assumes "store_ok df" "distinct (map transaction_id (rows df))"
  shows "\<exists>df_scored alerts_df. score_transactions df = Inr (df_scored, alerts_df)
     \<and> length (rows df_scored) = length (rows df)
     \<and> (\<forall>s \<in> set (rows df_scored). 0 \<le> risk_score s \<and> risk_score s \<le> int (length rules))
     \<and> length rules = 3"
proof -
  let ?names = "{''high_instant_ach_for_new_users'', ''rapid_high_risk_returns'',
                 ''device_shared_by_many_users''}"
  have bound: "hit_count (hits df) k \<le> 3" for k
  proof -
    have "rule_name ` {a \<in> set (hits df). transaction_id a = k} \<subseteq> ?names"
      using rule_names_of_hits [of df] by blast
    then have "card (rule_name ` {a \<in> set (hits df). transaction_id a = k}) \<le> card ?names"
      by (intro card_mono) simp_all
    also have "card ?names = 3"
      by simp
    finally show ?thesis
      unfolding hit_count_card [OF hits_pairs_distinct [OF assms(2)]] by simp
  qed
  have "0 \<le> hit_count (hits df) k" for k
    by (simp add: hit_count_def)
  with bound show ?thesis
    unfolding score_transactions_ok [OF assms(1)] by (auto simp: rules_def)
qed

theorem risk_score_between_0_and_3_witness:
  "store_ok mixed_store \<and> distinct (map transaction_id (rows mixed_store))
   \<and> score_transactions mixed_store = Inr (mixed_scored, mixed_alerts)
   \<and> risk_score (hd (rows mixed_scored)) = 3
   \<and> risk_score (hd (rows mixed_scored)) \<le> int (length rules)
   \<and> risk_score (last (rows mixed_scored)) = 0
   \<and> 0 \<le> risk_score (last (rows mixed_scored))"
proof -
  have v: "risk_score (hd (rows mixed_scored)) = 3" "risk_score (last (rows mixed_scored)) = 0"
    by (simp_all add: mixed_scored_def)
  have m: "hd (rows mixed_scored) \<in> set (rows mixed_scored)"
    "last (rows mixed_scored) \<in> set (rows mixed_scored)"
    by (simp_all add: mixed_scored_def)
  from risk_score_between_0_and_3 [OF mixed_store_ok mixed_store_distinct]
  have "\<forall>s \<in> set (rows mixed_scored). 0 \<le> risk_score s \<and> risk_score s \<le> int (length rules)"
    unfolding mixed_store_run by blast
  with m have "risk_score (hd (rows mixed_scored)) \<le> int (length rules)"
    "0 \<le> risk_score (last (rows mixed_scored))"
    by blast+
  with v mixed_store_ok mixed_store_distinct mixed_store_run show ?thesis
    by simp
qed

section \<open>A store that lacks a column\<close>

lemma first_missing:
  assumes "\<not> set rule_columns \<subseteq> set (columns df)"
  shows "score_transactions df = Inl (KeyError
     (let c = hd (filter (\<lambda>c. c \<notin> set (columns df)) rule_columns)
      in if c = ''user_id'' then ''Column not found: user_id'' else c))"
  using assms
  by (simp add: score_transactions_def score_with_def rules_def rule_columns_def
     rule_high_instant_ach_for_new_users_def rule_rapid_high_risk_returns_def
     rule_device_shared_by_many_users_def device_user_counts_def getitem_def Let_def)

lemma key_error_texts:
  "list_all (\<lambda>c. mentions (error_text
                 (KeyError (if c = ''user_id'' then ''Column not found: user_id'' else c))) c
             \<and> \<not> names_a_rule
                 (KeyError (if c = ''user_id'' then ''Column not found: user_id'' else c)))
     rule_columns"
  by (simp add: rule_columns_def names_a_rule_def rule_names_def)

text \<open>
  C8 (as the code has it): when the store lacks a column that a built-in rule reads,
  \<open>score_transactions\<close> returns no output; it raises the \<open>KeyError\<close> of the first such
  column in the order the rules read them. The error carries that column's label (after
  \<open>Column not found: \<close> for \<open>user_id\<close>, which the groupby object reports) and mentions no
  rule.
\<close>

theorem missing_rule_column_raises_key_error:
  assumes "\<not> set rule_columns \<subseteq> set (columns df)"
  shows "\<exists>c e. c \<in> set rule_columns \<and> c \<notin> set (columns df)
     \<and> c = hd (filter (\<lambda>c. c \<notin> set (columns df)) rule_columns)
     \<and> e = KeyError (if c = ''user_id'' then ''Column not found: user_id'' else c)
     \<and> score_transactions df = Inl e
     \<and> mentions (error_text e) c \<and> \<not> names_a_rule e"
proof -
  let ?missing = "filter (\<lambda>c. c \<notin> set (columns df)) rule_columns"
  let ?c = "hd ?missing"
  let ?e = "KeyError (if ?c = ''user_id'' then ''Column not found: user_id'' else ?c)"
  have "?missing \<noteq> []"
    using assms by (auto simp: filter_empty_conv)
  then have "?c \<in> set ?missing"
    by (rule hd_in_set)
  then have c: "?c \<in> set rule_columns" "?c \<notin> set (columns df)"
    by simp_all
  have run: "score_transactions df = Inl ?e"
    using first_missing [OF assms] by (simp add: Let_def)
  from c(1) key_error_texts have "mentions (error_text ?e) ?c \<and> \<not> names_a_rule ?e"
    unfolding list_all_iff by blast
  with c run show ?thesis
    by blast
qed

theorem missing_rule_column_raises_key_error_witness:
  "\<not> set rule_columns \<subseteq> set (columns no_speed_store)
   \<and> score_transactions no_speed_store = Inl (KeyError ''funding_speed'')"
proof -
  have h: "\<not> set rule_columns \<subseteq> set (columns no_speed_store)"
    by (simp add: rule_columns_def no_speed_store_def csv_columns_def)
  have "hd (filter (\<lambda>c. c \<notin> set (columns no_speed_store)) rule_columns) = ''funding_speed''"
    by (simp add: rule_columns_def no_speed_store_def csv_columns_def)
  with missing_rule_column_raises_key_error [OF h] h show ?thesis
    by simp
qed

text \<open>
  C8 as the specification states it fails on a store without the column \<open>device_id\<close>,
  which the device rule needs: the run ends in \<open>KeyError("device_id")\<close>, and that error
  names no rule, in particular not \<open>device_shared_by_many_users\<close>.
\<close>

theorem missing_column_error_names_no_rule:
  "''device_id'' \<in> set rule_columns \<and> ''device_id'' \<notin> set (columns no_device_store)
   \<and> score_transactions no_device_store = Inl (KeyError ''device_id'')
   \<and> \<not> names_a_rule (KeyError ''device_id'')
   \<and> \<not> mentions (error_text (KeyError ''device_id'')) ''device_shared_by_many_users''"
proof -
  have "score_transactions no_device_store = Inl (KeyError ''device_id'')"
    by (simp add: score_transactions_def score_with_def rules_def no_device_store_def
        csv_columns_def rule1_ok rule2_ok rule_device_shared_by_many_users_def
        device_user_counts_def)
  then show ?thesis
    by (simp add: rule_columns_def no_device_store_def csv_columns_def names_a_rule_def
        rule_names_def)
qed

section \<open>The order of the registry\<close>

lemma hit_counts_perm:
  assumes "columns a' = columns a" "mset (rows a') = mset (rows a)"
  shows "hit_counts a' = hit_counts a"
proof -
  have "set (map transaction_id (rows a')) = set (map transaction_id (rows a))"
    using mset_eq_setD [OF assms(2)] by simp
  then have keys: "sort (remdups (map transaction_id (rows a')))
                 = sort (remdups (map transaction_id (rows a)))"
    unfolding sorted_list_of_set_sort_remdups [symmetric] by (rule arg_cong)
  have "length (filter P (rows a')) = length (filter P (rows a))" for P
  proof -
    have "mset (filter P (rows a')) = mset (filter P (rows a))"
      by (simp only: mset_filter assms(2))
    then show ?thesis
      by (rule mset_eq_length)
  qed
  then show ?thesis
    by (simp add: hit_counts_def assms(1) keys)
qed

lemma registry_columns:
  assumes "r \<in> set rules" "r df = Inr out"
  shows "columns out = (if ''rule_name'' \<in> set (columns df) then columns df
                        else columns df @ [''rule_name''])"
  using assms
  by (auto simp: rules_def rule_high_instant_ach_for_new_users_def
      rule_rapid_high_risk_returns_def rule_device_shared_by_many_users_def
      device_user_counts_def getitem_def assign_rule_name_def boolean_index_def Let_def
      split: if_splits)

lemma score_with_outs:
  assumes "\<forall>r \<in> set rs. r df = Inr (f r)"
  shows "score_with rs df =
     ebind (pd_concat (map f rs)) (\<lambda>alerts_df.
     ebind (hit_counts alerts_df) (\<lambda>scores.
     ebind (merge_left df scores) (\<lambda>merged.
     ebind (fill_risk_score merged) (\<lambda>df_scored.
       Inr (df_scored, alerts_df)))))"
  by (simp add: score_with_def apply_rules_all_ok [OF assms])

lemma score_with_fails:
  assumes "r \<in> set rs" "r df = Inl e"
  shows "\<exists>e'. score_with rs df = Inl e'"
proof -
  from apply_rules_some_fail [OF assms] obtain e' where "apply_rules rs df [] = Inl e'" ..
  then show ?thesis
    by (simp add: score_with_def)
qed

lemma mset_concat_rows:
  fixes xs ys :: "'r dataframe list"
  assumes "mset xs = mset ys"
  shows "mset (concat (map rows xs)) = mset (concat (map rows ys))"
proof -
  have eq: "mset (concat (map rows zs)) = (\<Sum>z \<in># mset zs. mset (rows z))" for zs
    by (induction zs) simp_all
  show ?thesis
    by (simp only: eq assms)
qed

text \<open>
  C6: for every store and every reordering of the registry, running the body of
  \<open>score_transactions\<close> with the reordered rules either raises exactly when the original
  order raises, or returns the same scored table and an alert table with the same rows up
  to order, hence the same set of pairs of transaction id and rule name. On a store with
  the columns the engine reads and no \<open>risk_score\<close> column it is the second case.
\<close>

theorem rule_order_is_irrelevant:
  assumes "mset rs = mset rules"
  shows "((\<exists>e e'. score_with rs df = Inl e \<and> score_transactions df = Inl e')
     \<or> (\<exists>df_scored alerts_df alerts_df'.
           score_transactions df = Inr (df_scored, alerts_df)
         \<and> score_with rs df = Inr (df_scored, alerts_df')
         \<and> mset (rows alerts_df') = mset (rows alerts_df)
         \<and> (\<lambda>a. (transaction_id a, rule_name a)) ` set (rows alerts_df')
             = (\<lambda>a. (transaction_id a, rule_name a)) ` set (rows alerts_df)))
     \<and> (store_ok df \<longrightarrow> (\<exists>df_scored alerts_df. score_transactions df = Inr (df_scored, alerts_df)))"
    (is "?same \<and> ?returns")
proof
  show ?returns
    by (auto simp: score_transactions_ok)
  show ?same
  proof (cases "\<exists>r \<in> set rules. \<exists>e. r df = Inl e")
  case True
  then obtain r e where r: "r \<in> set rules" "r df = Inl e"
    by blast
  from r(1) have "r \<in> set rs"
    using mset_eq_setD [OF assms] by simp
  then have "\<exists>e'. score_with rs df = Inl e'"
    using r(2) by (rule score_with_fails)
  moreover have "\<exists>e'. score_transactions df = Inl e'"
    unfolding score_transactions_def using r by (rule score_with_fails)
  ultimately show ?thesis
    by blast
next
  case False
  define f where "f r = projr (r df)" for r :: rule
  define cs where "cs = (if ''rule_name'' \<in> set (columns df) then columns df
                        else columns df @ [''rule_name''])"
  have ok: "\<forall>r \<in> set rules. r df = Inr (f r)"
  proof
    fix r assume "r \<in> set rules"
    with False show "r df = Inr (f r)"
      unfolding f_def by (cases "r df") auto
  qed
  then have ok': "\<forall>r \<in> set rs. r df = Inr (f r)"
    using mset_eq_setD [OF assms] by simp
  have cols: "columns (f r) = cs" if "r \<in> set rules" for r
    unfolding cs_def using that ok by (intro registry_columns [of r df]) simp_all
  have "map columns (map f rules) = replicate (length rules) cs"
    by (simp add: map_replicate_const [symmetric] cols cong: map_cong)
  moreover have "map columns (map f rs) = replicate (length rs) cs"
    using mset_eq_setD [OF assms] by (simp add: map_replicate_const [symmetric] cols cong: map_cong)
  moreover have "length rs = length rules"
    using assms by (rule mset_eq_length)
  ultimately have same_cols: "map columns (map f rs) = map columns (map f rules)"
    by simp
  have "mset (map f rs) = mset (map f rules)"
    by (simp add: assms)
  then have same_rows: "mset (concat (map rows (map f rs))) = mset (concat (map rows (map f rules)))"
    by (rule mset_concat_rows)
  let ?a = "\<lparr>columns = union_labels (concat (map columns (map f rules))),
             rows = concat (map rows (map f rules))\<rparr>"
  let ?a' = "\<lparr>columns = union_labels (concat (map columns (map f rs))),
              rows = concat (map rows (map f rs))\<rparr>"
  have ne: "rules \<noteq> []" "rs \<noteq> []"
    using assms by (auto simp: rules_def)
  have c1: "pd_concat (map f rules) = Inr ?a" and c2: "pd_concat (map f rs) = Inr ?a'"
    using ne by (simp_all add: pd_concat_def)
  have hc: "hit_counts ?a' = hit_counts ?a"
    by (rule hit_counts_perm) (simp_all add: same_cols same_rows del: map_map)
  have pairs: "(\<lambda>a. (transaction_id a, rule_name a)) ` set (rows ?a')
             = (\<lambda>a. (transaction_id a, rule_name a)) ` set (rows ?a)"
    using mset_eq_setD [OF same_rows] by (simp del: map_map)
  have run: "score_transactions df =
     ebind (hit_counts ?a) (\<lambda>scores.
     ebind (merge_left df scores) (\<lambda>merged.
     ebind (fill_risk_score merged) (\<lambda>df_scored. Inr (df_scored, ?a))))"
    unfolding score_transactions_def score_with_outs [OF ok] c1 by simp
  have run': "score_with rs df =
     ebind (hit_counts ?a) (\<lambda>scores.
     ebind (merge_left df scores) (\<lambda>merged.
     ebind (fill_risk_score merged) (\<lambda>df_scored. Inr (df_scored, ?a'))))"
    unfolding score_with_outs [OF ok'] c2 ebind_Inr hc ..
  show ?thesis
  proof (cases "hit_counts ?a")
    case (Inl e)
    then show ?thesis by (simp add: run run')
  next
    case scores: (Inr scores)
    show ?thesis
    proof (cases "merge_left df scores")
      case (Inl e)
      with scores show ?thesis by (simp add: run run')
    next
      case merged: (Inr merged)
      show ?thesis
      proof (cases "fill_risk_score merged")
        case (Inl e)
        with scores merged show ?thesis by (simp add: run run')
      next
        case (Inr df_scored)
        with scores merged same_rows pairs show ?thesis
          by (simp add: run run' del: map_map)
      qed
    qed
  qed
qed
qed

theorem rule_order_is_irrelevant_witness:
  "mset (rev rules) = mset rules
   \<and> score_transactions mixed_store = Inr (mixed_scored, mixed_alerts)
   \<and> (\<exists>alerts_df'. score_with (rev rules) mixed_store = Inr (mixed_scored, alerts_df')
         \<and> mset (rows alerts_df') = mset (rows mixed_alerts))"
proof -
  have h: "mset (rev rules) = mset rules"
    by simp
  from rule_order_is_irrelevant [OF h, of mixed_store] mixed_store_ok
  have "\<exists>alerts_df'. score_with (rev rules) mixed_store = Inr (mixed_scored, alerts_df')
         \<and> mset (rows alerts_df') = mset (rows mixed_alerts)
         \<and> (\<lambda>a. (transaction_id a, rule_name a)) ` set (rows alerts_df')
             = (\<lambda>a. (transaction_id a, rule_name a)) ` set (rows mixed_alerts)"
    unfolding mixed_store_run by simp
  with h mixed_store_run show ?thesis
    by blast
qed

end
